theory Spec2Isabelle
  imports Complex_Main "HOL-Library.Word"
begin

section \<open>The OCR converter front end (frontend/src/App.js)\<close>

text \<open>
  The component \<open>App\<close> keeps ten pieces of React state and changes them only from
  its event handlers. Each handler is a function from the state before the event to the
  state after it. React renders again after every event, so a handler always reads the
  state its predecessor left; the one asynchronous handler, \<open>handleUploadAndOCR\<close>, is
  cut at its \<open>await\<close> into the part run by the click and the part run when the request
  settles. After the \<open>await\<close> it calls the setters with values of the response only, so
  the second part does not read the state captured by the first.
\<close>

subsection \<open>Strings and numbers of JavaScript\<close>

text \<open>
  A JavaScript string is a sequence of UTF-16 code units. A JavaScript number is an
  IEEE 754 double: a finite double is kept as the rational number it denotes, beside the
  three values that are not finite. Subtraction, division and multiplication give the
  exact result rounded to the nearest double, a tie going to the even significand; a
  result that rounds to \<open>2 ^ 1024\<close> or beyond is an infinity, and below \<open>2 ^ -1022\<close>
  the doubles are the multiples of \<open>2 ^ -1074\<close>. The one thing left out is the sign of
  zero: \<open>-0\<close> and \<open>0\<close> are the same number here, as they are once serialised.
\<close>

type_synonym jsstring = "16 word list"

definition str :: "string \<Rightarrow> jsstring" where
  "str s = map of_char s"

datatype jsnum = Num rat | PosInf | NegInf | NaN

text \<open>The number of binary digits of a natural number.\<close>

fun bit_length :: "nat \<Rightarrow> nat" where
  "bit_length n = (if n = 0 then 0 else Suc (bit_length (n div 2)))"

declare bit_length.simps [simp del]

text \<open>The binary exponent of a positive rational \<open>a\<close>: the \<open>e\<close> with \<open>2 ^ e \<le> a < 2 ^ (e + 1)\<close>.\<close>

definition ilog2 :: "rat \<Rightarrow> int" where
  "ilog2 a =
     (if 1 \<le> a then int (bit_length (nat \<lfloor>a\<rfloor>)) - 1
      else - int (bit_length (nat (\<lceil>1 / a\<rceil> - 1))))"

text \<open>The nearest integer, a tie going to the even one.\<close>

definition round_even :: "rat \<Rightarrow> int" where
  "round_even x =
     (if x - of_int \<lfloor>x\<rfloor> < 1 / 2 then \<lfloor>x\<rfloor>
      else if 1 / 2 < x - of_int \<lfloor>x\<rfloor> then \<lfloor>x\<rfloor> + 1
      else if even \<lfloor>x\<rfloor> then \<lfloor>x\<rfloor> else \<lfloor>x\<rfloor> + 1)"

text \<open>The smallest positive normal double, and the bound no finite double reaches.\<close>

definition min_normal :: rat where
  "min_normal = 1 / 2 ^ 1022"

definition double_limit :: rat where
  "double_limit = 2 ^ 1024"

text \<open>
  The double nearest to a rational number: its magnitude is rounded to a multiple of
  \<open>2 ^ (e - 52)\<close>, where \<open>e\<close> is its binary exponent, or -1022 if that is larger.
\<close>

definition double_of :: "rat \<Rightarrow> jsnum" where
  "double_of q =
     (if q = 0 then Num 0
      else
        let e = max (ilog2 \<bar>q\<bar>) (- 1022);
            u = power_int 2 (e - 52);
            r = of_int (round_even (\<bar>q\<bar> / u)) * u
        in if double_limit \<le> r then (if 0 < q then PosInf else NegInf)
           else Num (sgn q * r))"

text \<open>\<open>a - b\<close> for two finite numbers.\<close>

definition js_sub :: "rat \<Rightarrow> rat \<Rightarrow> jsnum" where
  "js_sub a b = double_of (a - b)"

text \<open>
  \<open>a / b\<close> for two unsigned integers of 32 bits (the \<open>unsigned long\<close> attributes of an
  image), each of which is a double.
\<close>

definition js_div :: "32 word \<Rightarrow> 32 word \<Rightarrow> jsnum" where
  "js_div a b =
     (if b \<noteq> 0 then double_of (of_nat (unat a) / of_nat (unat b))
      else if a \<noteq> 0 then PosInf else NaN)"

text \<open>\<open>a * b\<close>.\<close>

fun js_mul :: "jsnum \<Rightarrow> jsnum \<Rightarrow> jsnum" where
  "js_mul (Num a) (Num b) = double_of (a * b)"
| "js_mul NaN b = NaN"
| "js_mul a NaN = NaN"
| "js_mul (Num a) PosInf = (if 0 < a then PosInf else if a < 0 then NegInf else NaN)"
| "js_mul (Num a) NegInf = (if 0 < a then NegInf else if a < 0 then PosInf else NaN)"
| "js_mul PosInf (Num b) = (if 0 < b then PosInf else if b < 0 then NegInf else NaN)"
| "js_mul NegInf (Num b) = (if 0 < b then NegInf else if b < 0 then PosInf else NaN)"
| "js_mul PosInf PosInf = PosInf"
| "js_mul PosInf NegInf = NegInf"
| "js_mul NegInf PosInf = NegInf"
| "js_mul NegInf NegInf = PosInf"

text \<open>
  \<open>Math.round\<close>: the nearest integer, a tie going up, computed without rounding error;
  the other values are returned as they are.
\<close>

fun Math_round :: "jsnum \<Rightarrow> jsnum" where
  "Math_round (Num v) = Num (of_int \<lfloor>v + 1 / 2\<rfloor>)"
| "Math_round PosInf = PosInf"
| "Math_round NegInf = NegInf"
| "Math_round NaN = NaN"

text \<open>
  \<open>String.prototype.trim\<close> removes the code units of WhiteSpace and LineTerminator
  from both ends.
\<close>

definition WhiteSpace :: "16 word \<Rightarrow> bool" where
  "WhiteSpace c \<longleftrightarrow>
     c = 0x0009 \<or> c = 0x000A \<or> c = 0x000B \<or> c = 0x000C \<or> c = 0x000D \<or>
     c = 0x0020 \<or> c = 0x00A0 \<or> c = 0x1680 \<or> (0x2000 \<le> c \<and> c \<le> 0x200A) \<or>
     c = 0x2028 \<or> c = 0x2029 \<or> c = 0x202F \<or> c = 0x205F \<or> c = 0x3000 \<or>
     c = 0xFEFF"

definition trim :: "jsstring \<Rightarrow> jsstring" where
  "trim s = rev (dropWhile WhiteSpace (rev (dropWhile WhiteSpace s)))"

definition startsWith :: "jsstring \<Rightarrow> jsstring \<Rightarrow> bool" where
  "startsWith s p \<longleftrightarrow> take (length p) s = p"

subsection \<open>The state of the component\<close>

record js_file =
  file_name :: jsstring
  file_type :: jsstring

text \<open>The body of the response of \<open>/upload-ocr\<close>, with the fields the component reads.\<close>

record ocr_data =
  ocr_id :: jsstring
  ocr_filename :: jsstring
  extracted_text :: jsstring
  confidence :: rat

text \<open>The object \<open>newEdit\<close> of \<open>handleImageClick\<close>.\<close>

record text_edit =
  edit_text :: jsstring
  edit_x :: jsnum
  edit_y :: jsnum
  font_size :: int
  font_color :: jsstring

record app_state =
  selectedFile :: "js_file option"
  extractedText :: jsstring
  isLoading :: bool
  ocrResult :: "ocr_data option"
  imagePreview :: "jsstring option"
  textEdits :: "text_edit list"
  isEditMode :: bool
  newText :: jsstring
  fontSize :: int
  fontColor :: jsstring

text \<open>The initial values given to \<open>useState\<close>.\<close>

definition initial_state :: app_state where
  "initial_state =
     \<lparr>selectedFile = None, extractedText = [], isLoading = False, ocrResult = None,
      imagePreview = None, textEdits = [], isEditMode = False, newText = [],
      fontSize = 24, fontColor = str ''#000000''\<rparr>"

subsection \<open>The handlers\<close>

text \<open>
  \<open>handleFileSelect\<close>: \<open>f\<close> is \<open>event.target.files[0]\<close> (absent when no file was
  chosen) and \<open>url\<close> the value of \<open>URL.createObjectURL(file)\<close>.
\<close>

definition handleFileSelect :: "js_file option \<Rightarrow> jsstring \<Rightarrow> app_state \<Rightarrow> app_state" where
  "handleFileSelect f url s =
     (case f of
        None \<Rightarrow> s
      | Some fl \<Rightarrow>
          s\<lparr>selectedFile := Some fl, imagePreview := Some url, extractedText := [],
            ocrResult := None, textEdits := [], isEditMode := False\<rparr>)"

text \<open>\<open>handleDrop\<close>: as above for \<open>event.dataTransfer.files[0]\<close>, for image files only.\<close>

definition handleDrop :: "js_file option \<Rightarrow> jsstring \<Rightarrow> app_state \<Rightarrow> app_state" where
  "handleDrop f url s =
     (case f of
        None \<Rightarrow> s
      | Some fl \<Rightarrow>
          if startsWith (file_type fl) (str ''image/'')
          then s\<lparr>selectedFile := Some fl, imagePreview := Some url, extractedText := [],
                 ocrResult := None, textEdits := [], isEditMode := False\<rparr>
          else s)"

text \<open>
  \<open>handleUploadAndOCR\<close> up to its \<open>await\<close>: nothing without a selected file;
  otherwise \<open>isLoading\<close> is set and the selected file is posted. The second component
  is the file of the request sent, if one is sent.
\<close>

definition handleUploadAndOCR_send :: "app_state \<Rightarrow> app_state \<times> js_file option" where
  "handleUploadAndOCR_send s =
     (case selectedFile s of
        None \<Rightarrow> (s, None)
      | Some fl \<Rightarrow> (s\<lparr>isLoading := True\<rparr>, Some fl))"

text \<open>
  \<open>handleUploadAndOCR\<close> after its \<open>await\<close>: the request either resolves with the
  response body \<open>response.data\<close> or is rejected (the \<open>catch\<close> branch alerts); the
  \<open>finally\<close> block runs in both cases.
\<close>

definition handleUploadAndOCR_resolved :: "ocr_data \<Rightarrow> app_state \<Rightarrow> app_state" where
  "handleUploadAndOCR_resolved d s =
     s\<lparr>ocrResult := Some d, extractedText := extracted_text d, isLoading := False\<rparr>"

definition handleUploadAndOCR_rejected :: "app_state \<Rightarrow> app_state" where
  "handleUploadAndOCR_rejected s = s\<lparr>isLoading := False\<rparr>"

definition handleTextEdit :: "jsstring \<Rightarrow> app_state \<Rightarrow> app_state" where
  "handleTextEdit t s = s\<lparr>extractedText := t\<rparr>"

text \<open>
  What \<open>handleImageClick\<close> reads from its event: the pointer position and the bounding
  rectangle of the image, which are finite doubles, and the natural and displayed sizes
  of the image, which are unsigned integers of 32 bits.
\<close>

record click_event =
  clientX :: rat
  clientY :: rat
  rect_left :: rat
  rect_top :: rat
  naturalWidth :: "32 word"
  naturalHeight :: "32 word"
  img_width :: "32 word"
  img_height :: "32 word"

text \<open>
  The coordinate computation of \<open>handleImageClick\<close> (the spec's
  \<open>mapClickToOriginal\<close>): the pair \<open>(actualX, actualY)\<close>.
\<close>

definition mapClickToOriginal :: "click_event \<Rightarrow> jsnum \<times> jsnum" where
  "mapClickToOriginal ev =
     (let x = js_sub (clientX ev) (rect_left ev);
          y = js_sub (clientY ev) (rect_top ev);
          scaleX = js_div (naturalWidth ev) (img_width ev);
          scaleY = js_div (naturalHeight ev) (img_height ev)
      in (Math_round (js_mul x scaleX), Math_round (js_mul y scaleY)))"

definition handleImageClick :: "click_event \<Rightarrow> app_state \<Rightarrow> app_state" where
  "handleImageClick ev s =
     (if \<not> isEditMode s \<or> trim (newText s) = [] then s
      else
        let (actualX, actualY) = mapClickToOriginal ev;
            newEdit = \<lparr>edit_text = newText s, edit_x = actualX, edit_y = actualY,
                       font_size = fontSize s, font_color = fontColor s\<rparr>
        in s\<lparr>textEdits := textEdits s @ [newEdit], newText := []\<rparr>)"

text \<open>
  \<open>downloadEditedImage\<close> up to its \<open>await\<close>: either the alert \<open>No edits to save\<close>
  and no request, or the body \<open>editRequest\<close> posted to \<open>/edit-image\<close>. The handler
  sets no state.
\<close>

datatype alert = No_edits_to_save

record edit_request =
  file_id :: jsstring
  edits :: "text_edit list"

definition downloadEditedImage :: "app_state \<Rightarrow> alert + edit_request" where
  "downloadEditedImage s =
     (case ocrResult s of
        None \<Rightarrow> Inl No_edits_to_save
      | Some d \<Rightarrow>
          if length (textEdits s) = 0 then Inl No_edits_to_save
          else Inr \<lparr>file_id = ocr_id d, edits = textEdits s\<rparr>)"

definition clearEdits :: "app_state \<Rightarrow> app_state" where
  "clearEdits s = s\<lparr>textEdits := []\<rparr>"

subsection \<open>The events the rendered page accepts\<close>

text \<open>
  The JSX returned by \<open>App\<close> decides which handlers can run in a state: the button
  of \<open>handleUploadAndOCR\<close> is rendered when a file is selected and disabled while
  \<open>isLoading\<close>; the image is rendered when \<open>imagePreview\<close> is a string that is not
  empty; the text area of
  the extracted text is rendered when \<open>extractedText\<close> is not empty; the inputs for the
  new text, the font size and the font colour and the edit-mode button are rendered when
  \<open>ocrResult\<close> is set; the buttons for clearing the edits and for the download are
  rendered, within that panel, when \<open>textEdits\<close> is not empty. The font size comes from
  a range input with \<open>min="12"\<close> and \<open>max="72"\<close>, whose value is an integer between
  these bounds. Beside the state of the component, a configuration holds the file of the
  request to \<open>/upload-ocr\<close> that has not settled yet.
\<close>

datatype event =
    FileSelect "js_file option" jsstring
  | Drop "js_file option" jsstring
  | UploadClick
  | Resolved ocr_data
  | Rejected
  | TextEdit jsstring
  | NewTextInput jsstring
  | FontSizeInput int
  | FontColorInput jsstring
  | ToggleEditMode
  | ImageClick click_event
  | ClearEdits
  | DownloadClick

record config =
  app :: app_state
  in_flight :: "js_file option"

definition initial_config :: config where
  "initial_config = \<lparr>app = initial_state, in_flight = None\<rparr>"

fun step :: "event \<Rightarrow> config \<Rightarrow> config option" where
  "step (FileSelect f url) c = Some (c\<lparr>app := handleFileSelect f url (app c)\<rparr>)"
| "step (Drop f url) c = Some (c\<lparr>app := handleDrop f url (app c)\<rparr>)"
| "step UploadClick c =
     (if selectedFile (app c) \<noteq> None \<and> \<not> isLoading (app c)
      then Some \<lparr>app = fst (handleUploadAndOCR_send (app c)),
                 in_flight = snd (handleUploadAndOCR_send (app c))\<rparr>
      else None)"
| "step (Resolved d) c =
     (if in_flight c \<noteq> None
      then Some \<lparr>app = handleUploadAndOCR_resolved d (app c), in_flight = None\<rparr>
      else None)"
| "step Rejected c =
     (if in_flight c \<noteq> None
      then Some \<lparr>app = handleUploadAndOCR_rejected (app c), in_flight = None\<rparr>
      else None)"
| "step (TextEdit t) c =
     (if extractedText (app c) \<noteq> [] then Some (c\<lparr>app := handleTextEdit t (app c)\<rparr>)
      else None)"
| "step (NewTextInput t) c =
     (if ocrResult (app c) \<noteq> None then Some (c\<lparr>app := (app c)\<lparr>newText := t\<rparr>\<rparr>)
      else None)"
| "step (FontSizeInput n) c =
     (if ocrResult (app c) \<noteq> None \<and> 12 \<le> n \<and> n \<le> 72
      then Some (c\<lparr>app := (app c)\<lparr>fontSize := n\<rparr>\<rparr>)
      else None)"
| "step (FontColorInput col) c =
     (if ocrResult (app c) \<noteq> None then Some (c\<lparr>app := (app c)\<lparr>fontColor := col\<rparr>\<rparr>)
      else None)"
| "step ToggleEditMode c =
     (if ocrResult (app c) \<noteq> None
      then Some (c\<lparr>app := (app c)\<lparr>isEditMode := \<not> isEditMode (app c)\<rparr>\<rparr>)
      else None)"
| "step (ImageClick ev) c =
     (if imagePreview (app c) \<noteq> None \<and> imagePreview (app c) \<noteq> Some []
      then Some (c\<lparr>app := handleImageClick ev (app c)\<rparr>)
      else None)"
| "step ClearEdits c =
     (if ocrResult (app c) \<noteq> None \<and> textEdits (app c) \<noteq> []
      then Some (c\<lparr>app := clearEdits (app c)\<rparr>)
      else None)"
| "step DownloadClick c =
     (if ocrResult (app c) \<noteq> None \<and> textEdits (app c) \<noteq> [] then Some c else None)"

text \<open>A sequence of events, each accepted in the configuration its predecessor left.\<close>

fun run :: "event list \<Rightarrow> config \<Rightarrow> config option" where
  "run [] c = Some c"
| "run (e # es) c = (case step e c of None \<Rightarrow> None | Some c' \<Rightarrow> run es c')"

inductive reachable :: "config \<Rightarrow> bool" where
  init: "reachable initial_config"
| next_event: "reachable c \<Longrightarrow> step e c = Some c' \<Longrightarrow> reachable c'"

subsection \<open>The request builder as the specification words it\<close>

text \<open>
  The specification's \<open>buildRequest\<close> tells two failures apart. It is written here
  from the specification's words, over the same state, to be compared with
  \<open>downloadEditedImage\<close>.
\<close>

datatype BuildError = NoArtifact | NoAnnotations

definition buildRequest_spec :: "app_state \<Rightarrow> BuildError + edit_request" where
  "buildRequest_spec s =
     (case ocrResult s of
        None \<Rightarrow> Inl NoArtifact
      | Some d \<Rightarrow>
          if textEdits s = [] then Inl NoAnnotations
          else Inr \<lparr>file_id = ocr_id d, edits = textEdits s\<rparr>)"

subsection \<open>Sample inputs\<close>

definition file_A :: js_file where
  "file_A = \<lparr>file_name = str ''a.png'', file_type = str ''image/png''\<rparr>"

definition file_B :: js_file where
  "file_B = \<lparr>file_name = str ''b.png'', file_type = str ''image/png''\<rparr>"

definition ocr_1 :: ocr_data where
  "ocr_1 = \<lparr>ocr_id = str ''abc123'', ocr_filename = str ''a.png'',
            extracted_text = str ''first'', confidence = 90\<rparr>"

definition ocr_2 :: ocr_data where
  "ocr_2 = \<lparr>ocr_id = str ''def456'', ocr_filename = str ''a.png'',
            extracted_text = str ''second'', confidence = 80\<rparr>"

text \<open>A click at (50, 50) inside an image shown at 300 by 400 whose file is 1200 by 1600.\<close>

definition click_50_50 :: click_event where
  "click_50_50 =
     \<lparr>clientX = 60, clientY = 70, rect_left = 10, rect_top = 20,
      naturalWidth = 1200, naturalHeight = 1600, img_width = 300, img_height = 400\<rparr>"

text \<open>A click on the right and bottom border of an image shown at 3 by 7 whose file is 10 by 5.\<close>

definition click_corner :: click_event where
  "click_corner =
     \<lparr>clientX = 3, clientY = 7, rect_left = 0, rect_top = 0,
      naturalWidth = 10, naturalHeight = 5, img_width = 3, img_height = 7\<rparr>"

text \<open>
  A click whose horizontal offset is the double just below 3, in an image shown at 6 by
  600 whose file is 17 by 1001; the vertical offset is 300.
\<close>

definition click_near_half :: click_event where
  "click_near_half =
     \<lparr>clientX = 3, clientY = 300, rect_left = 1 / 2 ^ 51, rect_top = 0,
      naturalWidth = 17, naturalHeight = 1001, img_width = 6, img_height = 600\<rparr>"

definition edit_Hi :: text_edit where
  "edit_Hi =
     \<lparr>edit_text = str ''Hi'', edit_x = Num 200, edit_y = Num 200, font_size = 24,
      font_color = str ''#000000''\<rparr>"

text \<open>Edit mode on, the text \<open>Hi\<close> typed, the style as it is at the start.\<close>

definition state_Hi :: app_state where
  "state_Hi = initial_state\<lparr>ocrResult := Some ocr_1, isEditMode := True, newText := str ''Hi''\<rparr>"

text \<open>A file selected, its text extracted, edit mode entered, one annotation placed.\<close>

definition trace_one_edit :: "event list" where
  "trace_one_edit =
     [FileSelect (Some file_A) (str ''blob:1''), UploadClick, Resolved ocr_1, ToggleEditMode,
      NewTextInput (str ''Hi''), ImageClick click_50_50]"

definition state_one_edit :: app_state where
  "state_one_edit =
     \<lparr>selectedFile = Some file_A, extractedText = str ''first'', isLoading = False,
      ocrResult = Some ocr_1, imagePreview = Some (str ''blob:1''), textEdits = [edit_Hi],
      isEditMode = True, newText = [], fontSize = 24, fontColor = str ''#000000''\<rparr>"

subsection \<open>Sample event sequences\<close>

text \<open>After one annotation was placed, the text of the same file is extracted again.\<close>

definition trace_extract_again :: "event list" where
  "trace_extract_again = trace_one_edit @ [UploadClick, Resolved ocr_2]"

text \<open>A text is typed for the next annotation, then another file is selected.\<close>

definition trace_typed_then_file :: "event list" where
  "trace_typed_then_file =
     [FileSelect (Some file_A) (str ''blob:1''), UploadClick, Resolved ocr_1, ToggleEditMode,
      NewTextInput (str ''Hi''), FileSelect (Some file_B) (str ''blob:2'')]"

text \<open>
  The text of a first file is requested; before the response arrives a second file is
  selected.
\<close>

definition trace_file_changed :: "event list" where
  "trace_file_changed =
     [FileSelect (Some file_A) (str ''blob:1''), UploadClick,
      FileSelect (Some file_B) (str ''blob:2'')]"

definition state_file_changed :: app_state where
  "state_file_changed =
     initial_state\<lparr>selectedFile := Some file_B, imagePreview := Some (str ''blob:2''),
       isLoading := True\<rparr>"

subsection \<open>Well-formed annotations\<close>

text \<open>
  The pending font size and every stored annotation respect the data model: a text that
  is not empty and a font size within the bounds of the range input.
\<close>

definition sizes_ok :: "app_state \<Rightarrow> bool" where
  "sizes_ok s \<longleftrightarrow>
     12 \<le> fontSize s \<and> fontSize s \<le> 72 \<and>
     (\<forall>e\<in>set (textEdits s). edit_text e \<noteq> [] \<and> 12 \<le> font_size e \<and> font_size e \<le> 72)"

section \<open>Properties\<close>

subsection \<open>Auxiliary facts\<close>

lemma handleImageClick_unfold:
  "handleImageClick ev s =
     (if \<not> isEditMode s \<or> trim (newText s) = [] then s
      else s\<lparr>textEdits := textEdits s @
                [\<lparr>edit_text = newText s, edit_x = fst (mapClickToOriginal ev),
                  edit_y = snd (mapClickToOriginal ev), font_size = fontSize s,
                  font_color = fontColor s\<rparr>],
             newText := []\<rparr>)"
  by (simp add: handleImageClick_def split: prod.splits)

lemmas handler_defs =
  handleFileSelect_def handleDrop_def handleUploadAndOCR_send_def
  handleUploadAndOCR_resolved_def handleUploadAndOCR_rejected_def handleTextEdit_def
  handleImageClick_unfold clearEdits_def

lemmas sample_defs =
  file_A_def file_B_def ocr_1_def click_50_50_def edit_Hi_def state_Hi_def
  trace_one_edit_def state_one_edit_def initial_config_def initial_state_def

text \<open>Evaluating the arithmetic of doubles on numerals.\<close>

lemma floor_numeral_div: "\<lfloor>numeral a / numeral b :: rat\<rfloor> = numeral a div numeral b"
  using floor_divide_of_int_eq [of "numeral a" "numeral b", where ?'a = rat] by simp

lemma ceiling_numeral_div: "\<lceil>numeral a / numeral b :: rat\<rceil> = - ((- numeral a) div numeral b)"
  using floor_divide_of_int_eq [of "- numeral a" "numeral b", where ?'a = rat]
  by (simp add: ceiling_def)

lemmas double_eval = double_of_def double_limit_def ilog2_def round_even_def bit_length.simps Let_def
  floor_numeral_div ceiling_numeral_div

lemmas eval_defs =
  handler_defs sample_defs str_def trim_def WhiteSpace_def startsWith_def
  mapClickToOriginal_def js_div_def js_sub_def double_eval

lemma all_dropWhile: "(\<forall>x\<in>set (dropWhile P xs). P x) \<longleftrightarrow> (\<forall>x\<in>set xs. P x)"
  by (induction xs) auto

lemma trim_empty_iff: "trim s = [] \<longleftrightarrow> (\<forall>c\<in>set s. WhiteSpace c)"
  by (simp add: trim_def all_dropWhile)

text \<open>
  The rounding to a double: the binary exponent is the right one, and the result is
  within half a unit in the last place of the exact value.
\<close>

lemma bit_length_bounds:
  "0 < n \<Longrightarrow> 2 ^ (bit_length n - 1) \<le> n \<and> n < 2 ^ bit_length n"
proof (induction n rule: bit_length.induct)
  case (1 n)
  show ?case
  proof (cases "n div 2 = 0")
    case True
    with "1.prems" have "n = 1" by (auto simp: div_eq_0_iff)
    then show ?thesis by (simp add: bit_length.simps)
  next
    case False
    then have pos: "0 < n div 2" by simp
    from "1.prems" have n0: "n \<noteq> 0" by simp
    from "1.IH" [OF n0 pos]
    have lo: "2 ^ (bit_length (n div 2) - 1) \<le> n div 2"
      and hi: "n div 2 < 2 ^ bit_length (n div 2)" by simp_all
    have b: "bit_length n = Suc (bit_length (n div 2))"
      using n0 by (subst bit_length.simps) simp
    have bpos: "0 < bit_length (n div 2)"
      using pos by (subst bit_length.simps) simp
    have "2 ^ (bit_length n - 1) = 2 * 2 ^ (bit_length (n div 2) - 1)"
      using b bpos by (cases "bit_length (n div 2)") simp_all
    also have "\<dots> \<le> 2 * (n div 2)" using lo by simp
    also have "\<dots> \<le> n" by simp
    finally have l: "2 ^ (bit_length n - 1) \<le> n" .
    have "n < 2 * (n div 2) + 2" by presburger
    also have "\<dots> \<le> 2 * 2 ^ bit_length (n div 2)" using hi by simp
    finally have "n < 2 ^ bit_length n" using b by simp
    with l show ?thesis by simp
  qed
qed

lemma bit_length_pos: "0 < n \<Longrightarrow> 0 < bit_length n"
  by (subst bit_length.simps) simp

lemma ilog2_bounds:
  assumes "0 < a"
  shows "power_int 2 (ilog2 a) \<le> a" and "a < power_int 2 (ilog2 a + 1)"
proof -
  have "power_int 2 (ilog2 a) \<le> a \<and> a < power_int 2 (ilog2 a + 1)"
  proof (cases "1 \<le> a")
    case True
    define n where "n = nat \<lfloor>a\<rfloor>"
    have n: "0 < n" "of_nat n \<le> a" "a < of_nat n + 1"
      using True by (simp_all add: n_def le_floor_iff) linarith+
    note b = bit_length_bounds [OF n(1)] bit_length_pos [OF n(1)]
    have e: "ilog2 a = int (bit_length n) - 1"
      using True by (simp add: ilog2_def n_def)
    have "int (bit_length n) - 1 = int (bit_length n - 1)" using b by simp
    then have p1: "power_int (2::rat) (ilog2 a) = 2 ^ (bit_length n - 1)"
      unfolding e by (simp only: power_int_of_nat)
    have p2: "power_int (2::rat) (ilog2 a + 1) = 2 ^ bit_length n"
      unfolding e by (simp add: power_int_of_nat)
    have "(2::rat) ^ (bit_length n - 1) \<le> of_nat n"
      using b(1) by (metis of_nat_le_iff of_nat_numeral of_nat_power)
    then have "(2::rat) ^ (bit_length n - 1) \<le> a" using n(2) by (rule order_trans)
    then have lo: "power_int 2 (ilog2 a) \<le> a" by (simp only: p1)
    have "n + 1 \<le> 2 ^ bit_length n" using b(1) by simp
    then have "(of_nat n :: rat) + 1 \<le> 2 ^ bit_length n"
      by (metis of_nat_le_iff of_nat_numeral of_nat_power of_nat_Suc Suc_eq_plus1 add.commute)
    with n(3) have "a < 2 ^ bit_length n" by (rule less_le_trans)
    then have "a < power_int 2 (ilog2 a + 1)" by (simp only: p2)
    with lo show ?thesis by simp
  next
    case False
    define t where "t = 1 / a"
    have t: "1 < t" using False assms by (simp add: t_def)
    define n where "n = nat (\<lceil>t\<rceil> - 1)"
    have "2 \<le> \<lceil>t\<rceil>" using t by (simp add: le_ceiling_iff) 
    then have n0: "0 < n" and nc: "int n = \<lceil>t\<rceil> - 1" by (simp_all add: n_def)
    have tn: "of_nat n < t" "t \<le> of_nat n + 1"
    proof -
      have "of_int (\<lceil>t\<rceil> - 1) < t" "t \<le> of_int (\<lceil>t\<rceil> - 1) + 1"
        by (simp_all add: le_of_int_ceiling) linarith
      then show "of_nat n < t" "t \<le> of_nat n + 1"
        unfolding nc [symmetric] by simp_all
    qed
    note b = bit_length_bounds [OF n0] bit_length_pos [OF n0]
    have e: "ilog2 a = - int (bit_length n)"
      using False by (simp add: ilog2_def n_def t_def)
    have p1: "power_int (2::rat) (ilog2 a) = 1 / 2 ^ bit_length n"
      unfolding e by (simp add: power_int_minus field_simps)
    have "ilog2 a + 1 = - int (bit_length n - 1)" using b e by simp
    then have p2: "power_int (2::rat) (ilog2 a + 1) = 1 / 2 ^ (bit_length n - 1)"
      by (simp only: power_int_minus power_int_of_nat) (simp add: field_simps)
    have "n + 1 \<le> 2 ^ bit_length n" using b(1) by simp
    then have "(of_nat n :: rat) + 1 \<le> 2 ^ bit_length n"
      by (metis of_nat_le_iff of_nat_numeral of_nat_power of_nat_Suc Suc_eq_plus1 add.commute)
    with tn(2) have "t \<le> 2 ^ bit_length n" by (rule order_trans)
    then have lo: "power_int 2 (ilog2 a) \<le> a"
      using assms unfolding p1 t_def by (simp add: field_simps)
    have "(2::rat) ^ (bit_length n - 1) \<le> of_nat n"
      using b(1) by (metis of_nat_le_iff of_nat_numeral of_nat_power)
    then have "2 ^ (bit_length n - 1) < t" using tn(1) by (rule le_less_trans)
    then have "a < power_int 2 (ilog2 a + 1)"
      using assms unfolding p2 t_def by (simp add: field_simps)
    with lo show ?thesis by simp
  qed
  then show "power_int 2 (ilog2 a) \<le> a" and "a < power_int 2 (ilog2 a + 1)" by simp_all
qed

lemma round_even_error: "\<bar>of_int (round_even x) - x\<bar> \<le> 1 / 2"
proof -
  have "of_int \<lfloor>x\<rfloor> \<le> x" "x < of_int \<lfloor>x\<rfloor> + 1" by linarith+
  then show ?thesis
    unfolding round_even_def by (auto simp: abs_le_iff) 
qed

lemma round_even_nonneg: "0 \<le> x \<Longrightarrow> 0 \<le> round_even x"
  unfolding round_even_def by auto


lemma min_normal_pos: "0 < min_normal"
  by (simp add: min_normal_def)

lemma min_normal_le: "min_normal \<le> 1 / 2 ^ 32"
  unfolding min_normal_def by (intro divide_left_mono power_increasing) simp_all

lemma double_limit_ge: "2 ^ 34 \<le> double_limit"
  unfolding double_limit_def by (rule power_increasing) simp_all

lemma double_of_error:
  assumes "\<bar>q\<bar> + max \<bar>q\<bar> min_normal / 2 ^ 53 < double_limit"
  shows "\<exists>r. double_of q = Num r \<and> \<bar>r - q\<bar> \<le> max \<bar>q\<bar> min_normal / 2 ^ 53
    \<and> (0 \<le> q \<longrightarrow> 0 \<le> r)"
proof (cases "q = 0")
  case True
  then show ?thesis by (simp add: double_of_def)
next
  case False
  define a where "a = \<bar>q\<bar>"
  define E where "E = max (ilog2 a) (- 1022)"
  define u :: rat where "u = power_int 2 (E - 52)"
  define r where "r = of_int (round_even (a / u)) * u"
  have a: "0 < a" using False by (simp add: a_def)
  have u: "0 < u" by (simp add: u_def)
  have d: "double_of q = (if double_limit \<le> r then (if 0 < q then PosInf else NegInf)
      else Num (sgn q * r))"
    using False by (simp add: double_of_def Let_def a_def E_def u_def r_def)
  have "\<bar>of_int (round_even (a / u)) - a / u\<bar> * u \<le> 1 / 2 * u"
    using u by (intro mult_right_mono round_even_error) simp
  moreover have "\<bar>of_int (round_even (a / u)) - a / u\<bar> * u = \<bar>r - a\<bar>"
  proof -
    have "\<bar>of_int (round_even (a / u)) - a / u\<bar> * u
        = \<bar>(of_int (round_even (a / u)) - a / u) * u\<bar>"
      using u by (simp add: abs_mult)
    also have "(of_int (round_even (a / u)) - a / u) * u = r - a"
      using u by (simp add: r_def field_simps)
    finally show ?thesis .
  qed
  ultimately have e1: "\<bar>r - a\<bar> \<le> u / 2" by simp
  have u2: "u = power_int 2 E / 2 ^ 52"
    by (simp add: u_def power_int_diff)
  have pE: "power_int 2 E \<le> max a min_normal"
  proof (cases "- 1022 \<le> ilog2 a")
    case True
    then have "E = ilog2 a" by (simp add: E_def)
    then show ?thesis using ilog2_bounds(1) [OF a] by (simp add: le_max_iff_disj)
  next
    case False
    then have "E = - 1022" by (simp add: E_def)
    then have "power_int (2::rat) E = min_normal"
      by (simp add: min_normal_def power_int_minus field_simps)
    then show ?thesis by (simp add: le_max_iff_disj)
  qed
  have "u / 2 = power_int 2 E / 2 ^ 53" by (simp add: u2)
  also have "\<dots> \<le> max a min_normal / 2 ^ 53"
    using pE by (simp add: divide_right_mono)
  finally have e2: "\<bar>r - a\<bar> \<le> max a min_normal / 2 ^ 53"
    using e1 by linarith
  then have "r \<le> a + max a min_normal / 2 ^ 53" by linarith
  with assms have "r < double_limit" unfolding a_def by linarith
  with d have dn: "double_of q = Num (sgn q * r)" by simp
  have "sgn q * a = q" by (simp add: a_def sgn_mult_abs)
  then have "\<bar>sgn q * r - q\<bar> = \<bar>sgn q * (r - a)\<bar>"
    by (simp add: right_diff_distrib)
  also have "\<dots> = \<bar>r - a\<bar>"
    using False by (simp add: abs_mult)
  finally have e3: "\<bar>sgn q * r - q\<bar> \<le> max \<bar>q\<bar> min_normal / 2 ^ 53"
    using e2 by (simp add: a_def)
  have "0 \<le> a / u" using a u by simp
  then have "0 \<le> r"
    using u round_even_nonneg [of "a / u"] by (simp add: r_def)
  then have "0 \<le> q \<longrightarrow> 0 \<le> sgn q * r" using False by (simp add: sgn_if)
  with dn e3 show ?thesis by blast
qed

lemma scale_error:
  fixes n w :: nat
  assumes "0 < w" and "w < 2 ^ 32" and "n < 2 ^ 32"
  shows "\<exists>s. double_of (of_nat n / of_nat w) = Num s \<and> 0 \<le> s
    \<and> \<bar>s - of_nat n / of_nat w\<bar> \<le> (of_nat n / of_nat w) / 2 ^ 53"
proof (cases "n = 0")
  case True
  have "double_of 0 = Num 0" by (simp add: double_of_def)
  then show ?thesis using True by simp
next
  case False
  define q :: rat where "q = of_nat n / of_nat w"
  have w1: "(1::rat) \<le> of_nat w" using assms(1) by (simp add: Suc_le_eq)
  have "(of_nat w :: rat) < of_nat (2 ^ 32)" using assms(2) by (simp only: of_nat_less_iff)
  then have w2: "(of_nat w :: rat) \<le> 2 ^ 32" by simp
  have n1: "(1::rat) \<le> of_nat n" using False by (simp add: Suc_le_eq)
  have "(of_nat n :: rat) < of_nat (2 ^ 32)" using assms(3) by (simp only: of_nat_less_iff)
  then have n2: "(of_nat n :: rat) \<le> 2 ^ 32" by simp
  have qlo: "1 / 2 ^ 32 \<le> q"
  proof -
    have "1 / 2 ^ 32 \<le> 1 / (of_nat w :: rat)"
      using w1 w2 by (intro divide_left_mono) simp_all
    also have "\<dots> \<le> q"
      unfolding q_def using w1 n1 by (intro divide_right_mono) simp_all
    finally show ?thesis .
  qed
  have qhi: "q \<le> 2 ^ 32"
  proof -
    have "q \<le> of_nat n / 1"
      unfolding q_def using w1 n1 by (intro divide_left_mono) simp_all
    with n2 show ?thesis by simp
  qed
  have m: "max \<bar>q\<bar> min_normal = q"
  proof -
    have "min_normal \<le> q" using min_normal_le qlo by (rule order_trans)
    moreover have "0 \<le> q" using qlo by (rule order_trans [rotated]) simp
    ultimately show ?thesis by (simp add: max_def)
  qed
  have q0: "0 \<le> q" using qlo by (rule order_trans [rotated]) simp
  have "q / 2 ^ 53 \<le> q" using q0 by (simp add: field_simps)
  then have "\<bar>q\<bar> + q / 2 ^ 53 < 2 ^ 34" using qhi q0 by simp
  also note double_limit_ge
  finally have "\<bar>q\<bar> + max \<bar>q\<bar> min_normal / 2 ^ 53 < double_limit"
    unfolding m .
  from double_of_error [OF this] obtain s where
    s: "double_of q = Num s \<and> \<bar>s - q\<bar> \<le> max \<bar>q\<bar> min_normal / 2 ^ 53
      \<and> (0 \<le> q \<longrightarrow> 0 \<le> s)" ..
  then have "double_of q = Num s \<and> 0 \<le> s \<and> \<bar>s - q\<bar> \<le> q / 2 ^ 53"
    using q0 m by simp
  then show ?thesis unfolding q_def by (rule exI)
qed


lemma no_overflow_aux:
  fixes v mn dl A :: rat
  assumes "A \<le> \<bar>v\<bar> + \<bar>v\<bar> / 2 ^ 53 + mn / 2 ^ 53" and "mn \<le> 1" and "0 < mn"
    and "\<bar>v\<bar> < dl / 2" and "2 ^ 34 \<le> dl"
  shows "A < dl"
  using assms by simp

lemma in_bounds_aux:
  fixes p v mn n :: rat
  assumes "\<bar>p - v\<bar> \<le> \<bar>v\<bar> / 2 ^ 53 + mn / 2 ^ 53" and "0 \<le> v"
    and "v \<le> n + n / 2 ^ 53" and "n \<le> 2 ^ 32" and "0 \<le> n" and "mn \<le> 1"
  shows "p < n + 1 / 2"
  using assms by simp

lemma half_limit_aux:
  fixes v E dl :: rat
  assumes "\<bar>v - E\<bar> \<le> \<bar>E\<bar> / 2 ^ 53" and "\<bar>E\<bar> < dl / 4" and "2 ^ 34 \<le> dl"
  shows "\<bar>v\<bar> < dl / 2"
proof -
  have "\<bar>v\<bar> \<le> \<bar>E\<bar> + \<bar>v - E\<bar>" by simp
  with assms show ?thesis by simp
qed

lemma half_limit_pos_aux:
  fixes v n dl :: rat
  assumes "0 \<le> v" and "v \<le> n + n / 2 ^ 53" and "n \<le> 2 ^ 32" and "0 \<le> n"
    and "2 ^ 34 \<le> dl"
  shows "\<bar>v\<bar> < dl / 2"
  using assms by simp

lemma error_aux:
  fixes p v E mn i :: rat
  assumes "\<bar>p - v\<bar> \<le> \<bar>v\<bar> / 2 ^ 53 + mn / 2 ^ 53" and "\<bar>v - E\<bar> \<le> \<bar>E\<bar> / 2 ^ 53"
    and "i \<le> p + 1 / 2" and "p + 1 / 2 < i + 1" and "0 < mn"
  shows "\<bar>i - E\<bar> \<le> 1 / 2 + \<bar>E\<bar> / 2 ^ 51 + mn / 2 ^ 51"
proof -
  have a: "\<bar>v\<bar> \<le> \<bar>E\<bar> + \<bar>v - E\<bar>" by simp
  have b: "\<bar>i - E\<bar> \<le> \<bar>i - p\<bar> + \<bar>p - v\<bar> + \<bar>v - E\<bar>" by simp
  have c: "\<bar>i - p\<bar> \<le> 1 / 2" using assms(3,4) by linarith
  define x where "x = \<bar>v - E\<bar>"
  define y where "y = \<bar>p - v\<bar>"
  define z where "z = \<bar>i - p\<bar>"
  define e where "e = \<bar>E\<bar>"
  define u where "u = \<bar>v\<bar>"
  define r where "r = \<bar>i - E\<bar>"
  have e0: "0 \<le> \<bar>E\<bar>" by simp
  have "r \<le> 1 / 2 + e / 2 ^ 51 + mn / 2 ^ 51"
    using a b c e0 assms(1,2,5) unfolding x_def [symmetric] y_def [symmetric] z_def [symmetric]
      e_def [symmetric] u_def [symmetric] r_def [symmetric]
    by simp
  then show ?thesis by (simp add: r_def e_def)
qed

lemma double_of_bound:
  assumes "\<bar>v\<bar> < double_limit / 2"
  shows "\<exists>p. double_of v = Num p \<and> \<bar>p - v\<bar> \<le> \<bar>v\<bar> / 2 ^ 53 + min_normal / 2 ^ 53
    \<and> (0 \<le> v \<longrightarrow> 0 \<le> p)"
proof -
  have "max \<bar>v\<bar> min_normal \<le> \<bar>v\<bar> + min_normal"
    using min_normal_pos by (simp add: max_def)
  then have "max \<bar>v\<bar> min_normal / 2 ^ 53 \<le> (\<bar>v\<bar> + min_normal) / 2 ^ 53"
    by (rule divide_right_mono) simp
  then have d: "max \<bar>v\<bar> min_normal / 2 ^ 53 \<le> \<bar>v\<bar> / 2 ^ 53 + min_normal / 2 ^ 53"
    by (simp only: add_divide_distrib)
  then have "\<bar>v\<bar> + max \<bar>v\<bar> min_normal / 2 ^ 53
      \<le> \<bar>v\<bar> + \<bar>v\<bar> / 2 ^ 53 + min_normal / 2 ^ 53" by simp
  moreover have "min_normal \<le> 1" using min_normal_le by simp
  ultimately have "\<bar>v\<bar> + max \<bar>v\<bar> min_normal / 2 ^ 53 < double_limit"
    using min_normal_pos assms double_limit_ge by (rule no_overflow_aux)
  from double_of_error [OF this] obtain p where
    p: "double_of v = Num p \<and> \<bar>p - v\<bar> \<le> max \<bar>v\<bar> min_normal / 2 ^ 53
      \<and> (0 \<le> v \<longrightarrow> 0 \<le> p)" ..
  then have "\<bar>p - v\<bar> \<le> \<bar>v\<bar> / 2 ^ 53 + min_normal / 2 ^ 53"
    using d by (blast intro: order_trans)
  with p have "double_of v = Num p \<and> \<bar>p - v\<bar> \<le> \<bar>v\<bar> / 2 ^ 53 + min_normal / 2 ^ 53
      \<and> (0 \<le> v \<longrightarrow> 0 \<le> p)" by blast
  then show ?thesis by (rule exI)
qed

text \<open>One coordinate of an in-bounds click, for sizes of 32 bits.\<close>

lemma scaled_in_bounds:
  fixes n w :: nat and l :: rat
  assumes "0 < w" and "w < 2 ^ 32" and "n < 2 ^ 32" and "0 \<le> l" and "l \<le> of_nat w"
  shows "\<exists>s p. double_of (of_nat n / of_nat w) = Num s \<and> double_of (l * s) = Num p
    \<and> 0 \<le> \<lfloor>p + 1 / 2\<rfloor> \<and> \<lfloor>p + 1 / 2\<rfloor> \<le> int n"
proof -
  from scale_error [OF assms(1-3)] obtain s where
    s: "double_of (of_nat n / of_nat w) = Num s \<and> 0 \<le> s
      \<and> \<bar>s - of_nat n / of_nat w\<bar> \<le> (of_nat n / of_nat w) / 2 ^ 53" ..
  then have s0: "0 \<le> s" by simp
  have w0: "(0::rat) < of_nat w" using assms(1) by simp
  have "(of_nat n :: rat) < of_nat (2 ^ 32)" using assms(3) by (simp only: of_nat_less_iff)
  then have n2: "(of_nat n :: rat) \<le> 2 ^ 32" by simp
  have nn: "(0::rat) \<le> of_nat n" by simp
  have "s \<le> of_nat n / of_nat w + (of_nat n / of_nat w) / 2 ^ 53"
    using s by linarith
  then have "of_nat w * s \<le> of_nat w * (of_nat n / of_nat w + (of_nat n / of_nat w) / 2 ^ 53)"
    using w0 by (intro mult_left_mono) simp_all
  also have "\<dots> = of_nat n + of_nat n / 2 ^ 53"
    using w0 by (simp add: field_simps)
  finally have ws: "of_nat w * s \<le> of_nat n + of_nat n / 2 ^ 53" .
  have "l * s \<le> of_nat w * s"
    using assms(5) s0 by (rule mult_right_mono)
  then have v1: "l * s \<le> of_nat n + of_nat n / 2 ^ 53" using ws by (rule order_trans)
  have v0: "0 \<le> l * s" using assms(4) s0 by simp
  have "\<bar>l * s\<bar> < double_limit / 2"
    using v0 v1 n2 nn double_limit_ge by (rule half_limit_pos_aux)
  from double_of_bound [OF this] obtain p where
    p: "double_of (l * s) = Num p
      \<and> \<bar>p - l * s\<bar> \<le> \<bar>l * s\<bar> / 2 ^ 53 + min_normal / 2 ^ 53
      \<and> (0 \<le> l * s \<longrightarrow> 0 \<le> p)" ..
  have mn: "min_normal \<le> 1" using min_normal_le by simp
  have p0: "0 \<le> p" using p v0 by simp
  from p have "\<bar>p - l * s\<bar> \<le> \<bar>l * s\<bar> / 2 ^ 53 + min_normal / 2 ^ 53" by simp
  then have "p < of_nat n + 1 / 2" using v0 v1 n2 nn mn by (rule in_bounds_aux)
  then have "p + 1 / 2 < of_int (int n + 1)" by simp
  then have "\<lfloor>p + 1 / 2\<rfloor> < int n + 1" by (simp only: floor_less_iff)
  moreover have "0 \<le> \<lfloor>p + 1 / 2\<rfloor>" using p0 by simp
  ultimately have "double_of (of_nat n / of_nat w) = Num s \<and> double_of (l * s) = Num p
    \<and> 0 \<le> \<lfloor>p + 1 / 2\<rfloor> \<and> \<lfloor>p + 1 / 2\<rfloor> \<le> int n"
    using s p by simp
  then show ?thesis by blast
qed

text \<open>One coordinate of any click, for sizes of 32 bits: the distance to the exact quotient.\<close>

lemma scaled_error:
  fixes n w :: nat and l :: rat
  assumes "0 < w" and "w < 2 ^ 32" and "n < 2 ^ 32"
    and "\<bar>l * (of_nat n / of_nat w)\<bar> < double_limit / 4"
  shows "\<exists>s p. double_of (of_nat n / of_nat w) = Num s \<and> double_of (l * s) = Num p
    \<and> \<bar>of_int \<lfloor>p + 1 / 2\<rfloor> - l * (of_nat n / of_nat w)\<bar>
        \<le> 1 / 2 + \<bar>l * (of_nat n / of_nat w)\<bar> / 2 ^ 51 + min_normal / 2 ^ 51"
proof -
  define q :: rat where "q = of_nat n / of_nat w"
  define E where "E = l * q"
  from scale_error [OF assms(1-3)] obtain s where
    s: "double_of q = Num s \<and> 0 \<le> s \<and> \<bar>s - q\<bar> \<le> q / 2 ^ 53"
    unfolding q_def ..
  have q0: "0 \<le> q" by (simp add: q_def)
  have "l * s - E = l * (s - q)" by (simp add: E_def right_diff_distrib)
  then have "\<bar>l * s - E\<bar> = \<bar>l\<bar> * \<bar>s - q\<bar>" by (simp add: abs_mult)
  also have "\<dots> \<le> \<bar>l\<bar> * (q / 2 ^ 53)"
    using s by (intro mult_left_mono) simp_all
  also have "\<dots> = \<bar>E\<bar> / 2 ^ 53"
    using q0 by (simp add: E_def abs_mult)
  finally have e1: "\<bar>l * s - E\<bar> \<le> \<bar>E\<bar> / 2 ^ 53" .
  have El: "\<bar>E\<bar> < double_limit / 4"
    using assms(4) by (simp only: E_def q_def)
  have "\<bar>l * s\<bar> < double_limit / 2"
    using e1 El double_limit_ge by (rule half_limit_aux)
  from double_of_bound [OF this] obtain p where
    p: "double_of (l * s) = Num p
      \<and> \<bar>p - l * s\<bar> \<le> \<bar>l * s\<bar> / 2 ^ 53 + min_normal / 2 ^ 53
      \<and> (0 \<le> l * s \<longrightarrow> 0 \<le> p)" ..
  then have pe: "\<bar>p - l * s\<bar> \<le> \<bar>l * s\<bar> / 2 ^ 53 + min_normal / 2 ^ 53" by simp
  have f1: "of_int \<lfloor>p + 1 / 2\<rfloor> \<le> p + 1 / 2" by (rule of_int_floor_le)
  have f2: "p + 1 / 2 < of_int \<lfloor>p + 1 / 2\<rfloor> + 1" by (rule floor_correct [THEN conjunct2, simplified])
  have "\<bar>of_int \<lfloor>p + 1 / 2\<rfloor> - E\<bar> \<le> 1 / 2 + \<bar>E\<bar> / 2 ^ 51 + min_normal / 2 ^ 51"
    using pe e1 f1 f2 min_normal_pos by (rule error_aux)
  then have "double_of q = Num s \<and> double_of (l * s) = Num p
    \<and> \<bar>of_int \<lfloor>p + 1 / 2\<rfloor> - E\<bar> \<le> 1 / 2 + \<bar>E\<bar> / 2 ^ 51 + min_normal / 2 ^ 51"
    using s p by simp
  then show ?thesis unfolding E_def q_def by blast
qed

lemma run_append: "run (es @ es') c = (case run es c of None \<Rightarrow> None | Some c' \<Rightarrow> run es' c')"
  by (induction es arbitrary: c) (auto split: option.splits)

lemma run_reachable: "reachable c \<Longrightarrow> run es c = Some c' \<Longrightarrow> reachable c'"
proof (induction es arbitrary: c)
  case Nil
  then show ?case by simp
next
  case (Cons e es)
  from Cons.prems(2) obtain c1 where s: "step e c = Some c1" and r: "run es c1 = Some c'"
    by (auto split: option.splits)
  from Cons.prems(1) s have "reachable c1" by (rule reachable.next_event)
  then show ?case using r by (rule Cons.IH)
qed

lemma run_trace_one_edit:
  "run trace_one_edit initial_config = Some \<lparr>app = state_one_edit, in_flight = None\<rparr>"
  by (simp add: eval_defs)

lemma reachable_one_edit: "reachable \<lparr>app = state_one_edit, in_flight = None\<rparr>"
  using reachable.init run_trace_one_edit by (rule run_reachable)

text \<open>
  Without an extraction result there is neither an annotation nor edit mode: both need
  the panel that is rendered only when \<open>ocrResult\<close> is set, and selecting a file clears
  all three together.
\<close>

lemma step_no_result:
  assumes "step e c = Some c'"
    and "ocrResult (app c) = None \<longrightarrow> textEdits (app c) = [] \<and> \<not> isEditMode (app c)"
  shows "ocrResult (app c') = None \<longrightarrow> textEdits (app c') = [] \<and> \<not> isEditMode (app c')"
  using assms
  by (cases e) (auto simp: handler_defs split: if_splits option.splits)

lemma reachable_no_result:
  "reachable c \<Longrightarrow> ocrResult (app c) = None \<longrightarrow> textEdits (app c) = [] \<and> \<not> isEditMode (app c)"
proof (induction rule: reachable.induct)
  case init
  show ?case by (simp add: initial_config_def initial_state_def)
next
  case (next_event c e c')
  from next_event.hyps(2) next_event.IH show ?case by (rule step_no_result)
qed

lemma handleImageClick_sizes_ok: "sizes_ok s \<Longrightarrow> sizes_ok (handleImageClick ev s)"
  by (auto simp: sizes_ok_def handleImageClick_unfold trim_empty_iff)

lemma step_sizes_ok:
  assumes "step e c = Some c'" and "sizes_ok (app c)"
  shows "sizes_ok (app c')"
proof (cases e)
  case (ImageClick ev)
  with assms show ?thesis
    by (auto simp: handleImageClick_sizes_ok split: if_splits)
next
  case (FileSelect f url)
  with assms show ?thesis
    by (auto simp: sizes_ok_def handleFileSelect_def split: option.splits)
next
  case (Drop f url)
  with assms show ?thesis
    by (auto simp: sizes_ok_def handleDrop_def split: option.splits if_splits)
qed (use assms in \<open>auto simp: sizes_ok_def handler_defs split: if_splits option.splits\<close>)

lemma reachable_sizes_ok: "reachable c \<Longrightarrow> sizes_ok (app c)"
proof (induction rule: reachable.induct)
  case init
  show ?case by (simp add: sizes_ok_def initial_config_def initial_state_def)
next
  case (next_event c e c')
  from next_event.hyps(2) next_event.IH show ?case by (rule step_sizes_ok)
qed

subsection \<open>Adding an annotation\<close>

text \<open>
  C4. When edit mode is off, or the pending text is empty or made of white space only, a
  click on the image changes nothing: the state after \<open>handleImageClick\<close> is the state
  before it, so the annotation sequence and every other field are as they were.
\<close>

theorem handleImageClick_refused:
  assumes "\<not> isEditMode s \<or> (\<forall>c\<in>set (newText s). WhiteSpace c)"
  shows "handleImageClick ev s = s
    \<and> length (textEdits (handleImageClick ev s)) = length (textEdits s)"
  using assms by (auto simp: handleImageClick_unfold trim_empty_iff)

theorem handleImageClick_refused_witness:
  "isEditMode (state_Hi\<lparr>newText := str ''  ''\<rparr>)
   \<and> list_all WhiteSpace (newText (state_Hi\<lparr>newText := str ''  ''\<rparr>))
   \<and> handleImageClick click_50_50 (state_Hi\<lparr>newText := str ''  ''\<rparr>)
       = state_Hi\<lparr>newText := str ''  ''\<rparr>
   \<and> \<not> isEditMode (state_Hi\<lparr>isEditMode := False\<rparr>)
   \<and> \<not> list_all WhiteSpace (newText (state_Hi\<lparr>isEditMode := False\<rparr>))
   \<and> handleImageClick click_50_50 (state_Hi\<lparr>isEditMode := False\<rparr>)
       = state_Hi\<lparr>isEditMode := False\<rparr>"
proof -
  have a: "\<not> isEditMode (state_Hi\<lparr>newText := str ''  ''\<rparr>)
      \<or> (\<forall>c\<in>set (newText (state_Hi\<lparr>newText := str ''  ''\<rparr>)). WhiteSpace c)"
    by (simp add: str_def WhiteSpace_def)
  have b: "\<not> isEditMode (state_Hi\<lparr>isEditMode := False\<rparr>)
      \<or> (\<forall>c\<in>set (newText (state_Hi\<lparr>isEditMode := False\<rparr>)). WhiteSpace c)"
    by simp
  have c: "isEditMode (state_Hi\<lparr>newText := str ''  ''\<rparr>)
      \<and> list_all WhiteSpace (newText (state_Hi\<lparr>newText := str ''  ''\<rparr>))
      \<and> \<not> list_all WhiteSpace (newText (state_Hi\<lparr>isEditMode := False\<rparr>))"
    by (simp add: state_Hi_def str_def WhiteSpace_def)
  show ?thesis
    using c handleImageClick_refused [OF a, of click_50_50]
      handleImageClick_refused [OF b, of click_50_50]
    by simp
qed

text \<open>
  C5. When edit mode is on and the pending text has a character that is not white space,
  a click appends exactly one annotation at the end of the sequence: its text is the
  pending text, its position the mapped click, its size and colour the pending size and
  colour. The earlier annotations stay as they are and in their order, the pending text
  becomes empty, and the pending size and colour (and every other field) are unchanged.
\<close>

theorem handleImageClick_appends:
  assumes "isEditMode s" and "\<exists>c\<in>set (newText s). \<not> WhiteSpace c"
  shows "handleImageClick ev s =
      s\<lparr>textEdits := textEdits s @
          [\<lparr>edit_text = newText s, edit_x = fst (mapClickToOriginal ev),
            edit_y = snd (mapClickToOriginal ev), font_size = fontSize s,
            font_color = fontColor s\<rparr>],
        newText := []\<rparr>
    \<and> length (textEdits (handleImageClick ev s)) = Suc (length (textEdits s))
    \<and> take (length (textEdits s)) (textEdits (handleImageClick ev s)) = textEdits s
    \<and> newText (handleImageClick ev s) = []
    \<and> fontSize (handleImageClick ev s) = fontSize s
    \<and> fontColor (handleImageClick ev s) = fontColor s"
  using assms by (auto simp: handleImageClick_unfold trim_empty_iff)

theorem handleImageClick_appends_witness:
  "isEditMode state_Hi \<and> (\<exists>c\<in>set (newText state_Hi). \<not> WhiteSpace c)
   \<and> fontSize state_Hi = 24 \<and> fontColor state_Hi = str ''#000000''
   \<and> newText state_Hi = str ''Hi'' \<and> textEdits state_Hi = []
   \<and> textEdits (handleImageClick click_50_50 state_Hi) =
       [\<lparr>edit_text = str ''Hi'', edit_x = Num 200, edit_y = Num 200, font_size = 24,
         font_color = str ''#000000''\<rparr>]
   \<and> newText (handleImageClick click_50_50 state_Hi) = []"
proof -
  have a: "isEditMode state_Hi" by (simp add: state_Hi_def)
  have b: "\<exists>c\<in>set (newText state_Hi). \<not> WhiteSpace c"
    by (simp add: state_Hi_def str_def WhiteSpace_def)
  have m: "mapClickToOriginal click_50_50 = (Num 200, Num 200)"
    by (simp add: eval_defs)
  show ?thesis
    using a b handleImageClick_appends [OF a b, of click_50_50]
    by (simp add: m) (simp add: state_Hi_def initial_state_def)
qed

subsection \<open>Mapping a click to the pixels of the file\<close>

lemma unat_32_less: "unat (w :: 32 word) < 2 ^ 32"
proof -
  have "unat w < 2 ^ LENGTH(32)" by (rule unsigned_less)
  then show ?thesis by simp
qed

lemma unat_32_pos: "0 < (w :: 32 word) \<Longrightarrow> 0 < unat w"
  by (simp add: word_gt_0 unat_gt_0)

text \<open>
  C7, as the specification states it, fails. Horizontally the exact quotient is just
  below 8.5, so that 8 is its only nearest integer, and the code returns 9: the product
  of the doubles rounds to 8.5, which \<open>Math.round\<close> takes up. Vertically the exact
  quotient is 500.5 and the code returns 500, because the double nearest to 1001 / 600
  lies below it.
\<close>

theorem mapClickToOriginal_exact_counterexample:
  "js_sub (clientX click_near_half) (rect_left click_near_half) = Num (3 - 1 / 2 ^ 51)
   \<and> js_sub (clientY click_near_half) (rect_top click_near_half) = Num 300
   \<and> double_of (rect_left click_near_half) = Num (rect_left click_near_half)
   \<and> mapClickToOriginal click_near_half = (Num 9, Num 500)
   \<and> unat (naturalWidth click_near_half) = 17 \<and> unat (img_width click_near_half) = 6
   \<and> unat (naturalHeight click_near_half) = 1001 \<and> unat (img_height click_near_half) = 600
   \<and> round ((3 - 1 / 2 ^ 51) * 17 / 6 :: rat) = 8
   \<and> \<bar>8 - (3 - 1 / 2 ^ 51) * 17 / 6 :: rat\<bar> < 1 / 2
   \<and> 1 / 2 < \<bar>9 - (3 - 1 / 2 ^ 51) * 17 / 6 :: rat\<bar>
   \<and> round (300 * 1001 / 600 :: rat) = 501"
proof -
  have a: "js_sub (clientX click_near_half) (rect_left click_near_half) = Num (3 - 1 / 2 ^ 51)
      \<and> js_sub (clientY click_near_half) (rect_top click_near_half) = Num 300
      \<and> double_of (rect_left click_near_half) = Num (rect_left click_near_half)"
    by (simp add: click_near_half_def js_sub_def double_eval)
  have b: "mapClickToOriginal click_near_half = (Num 9, Num 500)"
    by (simp add: click_near_half_def mapClickToOriginal_def js_sub_def js_div_def double_eval)
  have c: "unat (naturalWidth click_near_half) = 17 \<and> unat (img_width click_near_half) = 6
      \<and> unat (naturalHeight click_near_half) = 1001
      \<and> unat (img_height click_near_half) = 600"
    by (simp add: click_near_half_def)
  have d: "round ((3 - 1 / 2 ^ 51) * 17 / 6 :: rat) = 8
      \<and> round (300 * 1001 / 600 :: rat) = 501"
    by (simp add: round_def floor_numeral_div)
  have e: "\<bar>8 - (3 - 1 / 2 ^ 51) * 17 / 6 :: rat\<bar> < 1 / 2
      \<and> 1 / 2 < \<bar>9 - (3 - 1 / 2 ^ 51) * 17 / 6 :: rat\<bar>"
    by simp
  from a b c d e show ?thesis by blast
qed

text \<open>
  C7, amended. \<open>mapClickToOriginal\<close> computes \<open>x = Math.round (localX * scaleX)\<close> with
  \<open>scaleX = naturalWidth / displayedWidth\<close>, and \<open>y\<close> likewise, in the arithmetic of
  doubles: the quotient and the product are each rounded to a double before
  \<open>Math.round\<close> takes the nearest integer. For an image displayed with positive width
  and height, and exact quotients below \<open>2 ^ 1022\<close> in magnitude, \<open>x\<close> is an integer whose
  distance to the exact quotient \<open>q = localX * naturalWidth / displayedWidth\<close> is at most
  \<open>1 / 2 + (\<bar>q\<bar> + 2 ^ -1022) / 2 ^ 51\<close>, and \<open>y\<close> likewise; so it is a nearest integer of
  \<open>q\<close> unless \<open>q\<close> is that close to the middle between two integers. Displayed at 300
  by 400 with a file of 1200 by 1600, a click at local (50, 50) is mapped to (200, 200).
\<close>

theorem mapClickToOriginal_double_rounds:
  assumes "0 < img_width ev" and "0 < img_height ev"
    and "js_sub (clientX ev) (rect_left ev) = Num localX"
    and "js_sub (clientY ev) (rect_top ev) = Num localY"
    and "\<bar>localX * of_nat (unat (naturalWidth ev)) / of_nat (unat (img_width ev))\<bar>
          < double_limit / 4"
    and "\<bar>localY * of_nat (unat (naturalHeight ev)) / of_nat (unat (img_height ev))\<bar>
          < double_limit / 4"
  shows "mapClickToOriginal ev =
      (Math_round (js_mul (Num localX) (js_div (naturalWidth ev) (img_width ev))),
       Math_round (js_mul (Num localY) (js_div (naturalHeight ev) (img_height ev))))
    \<and> (\<exists>i j. mapClickToOriginal ev = (Num (of_int i), Num (of_int j))
        \<and> \<bar>of_int i - localX * of_nat (unat (naturalWidth ev)) / of_nat (unat (img_width ev))\<bar>
            \<le> 1 / 2
              + \<bar>localX * of_nat (unat (naturalWidth ev)) / of_nat (unat (img_width ev))\<bar>
                  / 2 ^ 51
              + min_normal / 2 ^ 51
        \<and> \<bar>of_int j - localY * of_nat (unat (naturalHeight ev)) / of_nat (unat (img_height ev))\<bar>
            \<le> 1 / 2
              + \<bar>localY * of_nat (unat (naturalHeight ev)) / of_nat (unat (img_height ev))\<bar>
                  / 2 ^ 51
              + min_normal / 2 ^ 51)
    \<and> (img_width ev = 300 \<and> img_height ev = 400 \<and> naturalWidth ev = 1200
         \<and> naturalHeight ev = 1600 \<and> localX = 50 \<and> localY = 50
       \<longrightarrow> mapClickToOriginal ev = (Num 200, Num 200))"
proof -
  have m: "mapClickToOriginal ev =
      (Math_round (js_mul (Num localX) (js_div (naturalWidth ev) (img_width ev))),
       Math_round (js_mul (Num localY) (js_div (naturalHeight ev) (img_height ev))))"
    by (simp add: mapClickToOriginal_def assms(3,4))
  have wx: "img_width ev \<noteq> 0" and wy: "img_height ev \<noteq> 0"
    using assms(1,2) by (simp_all add: word_gt_0)
  from scaled_error [where n = "unat (naturalWidth ev)" and l = localX,
      OF unat_32_pos [OF assms(1)] unat_32_less unat_32_less] assms(5)
  obtain sx px where
    x: "double_of (of_nat (unat (naturalWidth ev)) / of_nat (unat (img_width ev))) = Num sx"
      "double_of (localX * sx) = Num px"
      "\<bar>of_int \<lfloor>px + 1 / 2\<rfloor>
          - localX * of_nat (unat (naturalWidth ev)) / of_nat (unat (img_width ev))\<bar>
        \<le> 1 / 2
          + \<bar>localX * of_nat (unat (naturalWidth ev)) / of_nat (unat (img_width ev))\<bar> / 2 ^ 51
          + min_normal / 2 ^ 51"
    by (auto simp only: times_divide_eq_right)
  from scaled_error [where n = "unat (naturalHeight ev)" and l = localY,
      OF unat_32_pos [OF assms(2)] unat_32_less unat_32_less] assms(6)
  obtain sy py where
    y: "double_of (of_nat (unat (naturalHeight ev)) / of_nat (unat (img_height ev))) = Num sy"
      "double_of (localY * sy) = Num py"
      "\<bar>of_int \<lfloor>py + 1 / 2\<rfloor>
          - localY * of_nat (unat (naturalHeight ev)) / of_nat (unat (img_height ev))\<bar>
        \<le> 1 / 2
          + \<bar>localY * of_nat (unat (naturalHeight ev)) / of_nat (unat (img_height ev))\<bar> / 2 ^ 51
          + min_normal / 2 ^ 51"
    by (auto simp only: times_divide_eq_right)
  have r: "mapClickToOriginal ev =
      (Num (of_int \<lfloor>px + 1 / 2\<rfloor>), Num (of_int \<lfloor>py + 1 / 2\<rfloor>))"
    using wx wy x(1,2) y(1,2) by (simp add: m js_div_def)
  have s: "mapClickToOriginal ev = (Num 200, Num 200)"
    if "img_width ev = 300 \<and> img_height ev = 400 \<and> naturalWidth ev = 1200
         \<and> naturalHeight ev = 1600 \<and> localX = 50 \<and> localY = 50"
    using that by (simp add: m js_div_def double_eval)
  from r x(3) y(3) have "\<exists>i j. mapClickToOriginal ev = (Num (of_int i), Num (of_int j))
        \<and> \<bar>of_int i - localX * of_nat (unat (naturalWidth ev)) / of_nat (unat (img_width ev))\<bar>
            \<le> 1 / 2
              + \<bar>localX * of_nat (unat (naturalWidth ev)) / of_nat (unat (img_width ev))\<bar>
                  / 2 ^ 51
              + min_normal / 2 ^ 51
        \<and> \<bar>of_int j - localY * of_nat (unat (naturalHeight ev)) / of_nat (unat (img_height ev))\<bar>
            \<le> 1 / 2
              + \<bar>localY * of_nat (unat (naturalHeight ev)) / of_nat (unat (img_height ev))\<bar>
                  / 2 ^ 51
              + min_normal / 2 ^ 51"
    by blast
  with m s show ?thesis by blast
qed

theorem mapClickToOriginal_double_rounds_witness:
  "0 < img_width click_50_50 \<and> 0 < img_height click_50_50
   \<and> img_width click_50_50 = 300 \<and> img_height click_50_50 = 400
   \<and> naturalWidth click_50_50 = 1200 \<and> naturalHeight click_50_50 = 1600
   \<and> js_sub (clientX click_50_50) (rect_left click_50_50) = Num 50
   \<and> js_sub (clientY click_50_50) (rect_top click_50_50) = Num 50
   \<and> mapClickToOriginal click_50_50 = (Num 200, Num 200)"
proof -
  have a: "0 < img_width click_50_50" and b: "0 < img_height click_50_50"
    by (simp_all add: click_50_50_def)
  have c: "js_sub (clientX click_50_50) (rect_left click_50_50) = Num 50"
    and d: "js_sub (clientY click_50_50) (rect_top click_50_50) = Num 50"
    by (simp_all add: click_50_50_def js_sub_def double_eval)
  have e: "\<bar>50 * of_nat (unat (naturalWidth click_50_50))
        / of_nat (unat (img_width click_50_50))\<bar> < double_limit / 4"
    and f: "\<bar>50 * of_nat (unat (naturalHeight click_50_50))
        / of_nat (unat (img_height click_50_50))\<bar> < double_limit / 4"
    by (simp_all add: click_50_50_def double_limit_def)
  have g: "img_width click_50_50 = 300 \<and> img_height click_50_50 = 400
      \<and> naturalWidth click_50_50 = 1200 \<and> naturalHeight click_50_50 = 1600"
    by (simp add: click_50_50_def)
  from mapClickToOriginal_double_rounds [OF a b c d e f] g
  have "mapClickToOriginal click_50_50 = (Num 200, Num 200)" by blast
  with a b c d g show ?thesis by blast
qed

text \<open>
  C8. For an image displayed with positive width and height and a local position between
  0 and the displayed width, respectively height, the mapped coordinates are integers
  between 0 and the natural width, respectively height, of the file.
\<close>

theorem mapClickToOriginal_in_bounds:
  assumes "0 < img_width ev" and "0 < img_height ev"
    and "js_sub (clientX ev) (rect_left ev) = Num localX"
    and "js_sub (clientY ev) (rect_top ev) = Num localY"
    and "0 \<le> localX" and "localX \<le> of_nat (unat (img_width ev))"
    and "0 \<le> localY" and "localY \<le> of_nat (unat (img_height ev))"
  shows "\<exists>i j. mapClickToOriginal ev = (Num (of_int i), Num (of_int j))
    \<and> 0 \<le> i \<and> i \<le> int (unat (naturalWidth ev))
    \<and> 0 \<le> j \<and> j \<le> int (unat (naturalHeight ev))"
proof -
  have wx: "img_width ev \<noteq> 0" and wy: "img_height ev \<noteq> 0"
    using assms(1,2) by (simp_all add: word_gt_0)
  from scaled_in_bounds [where n = "unat (naturalWidth ev)",
      OF unat_32_pos [OF assms(1)] unat_32_less unat_32_less assms(5,6)]
  obtain sx px where
    x: "double_of (of_nat (unat (naturalWidth ev)) / of_nat (unat (img_width ev))) = Num sx"
      "double_of (localX * sx) = Num px"
      "0 \<le> \<lfloor>px + 1 / 2\<rfloor>" "\<lfloor>px + 1 / 2\<rfloor> \<le> int (unat (naturalWidth ev))"
    by blast
  from scaled_in_bounds [where n = "unat (naturalHeight ev)",
      OF unat_32_pos [OF assms(2)] unat_32_less unat_32_less assms(7,8)]
  obtain sy py where
    y: "double_of (of_nat (unat (naturalHeight ev)) / of_nat (unat (img_height ev))) = Num sy"
      "double_of (localY * sy) = Num py"
      "0 \<le> \<lfloor>py + 1 / 2\<rfloor>" "\<lfloor>py + 1 / 2\<rfloor> \<le> int (unat (naturalHeight ev))"
    by blast
  have "mapClickToOriginal ev =
      (Num (of_int \<lfloor>px + 1 / 2\<rfloor>), Num (of_int \<lfloor>py + 1 / 2\<rfloor>))"
    using wx wy x(1,2) y(1,2) by (simp add: mapClickToOriginal_def assms(3,4) js_div_def)
  with x(3,4) y(3,4) show ?thesis by blast
qed

theorem mapClickToOriginal_in_bounds_witness:
  "0 < img_width click_corner \<and> 0 < img_height click_corner
   \<and> js_sub (clientX click_corner) (rect_left click_corner) = Num 3
   \<and> js_sub (clientY click_corner) (rect_top click_corner) = Num 7
   \<and> unat (img_width click_corner) = 3 \<and> unat (img_height click_corner) = 7
   \<and> unat (naturalWidth click_corner) = 10 \<and> unat (naturalHeight click_corner) = 5
   \<and> mapClickToOriginal click_corner = (Num 10, Num 5)
   \<and> (\<exists>i j. mapClickToOriginal click_corner = (Num (of_int i), Num (of_int j))
        \<and> 0 \<le> i \<and> i \<le> int (unat (naturalWidth click_corner))
        \<and> 0 \<le> j \<and> j \<le> int (unat (naturalHeight click_corner)))"
proof -
  have a: "0 < img_width click_corner" and b: "0 < img_height click_corner"
    by (simp_all add: click_corner_def)
  have c: "js_sub (clientX click_corner) (rect_left click_corner) = Num 3"
    and d: "js_sub (clientY click_corner) (rect_top click_corner) = Num 7"
    by (simp_all add: click_corner_def js_sub_def double_eval)
  have e: "(0::rat) \<le> 3" and f: "(3::rat) \<le> of_nat (unat (img_width click_corner))"
    and g: "(0::rat) \<le> 7" and h: "(7::rat) \<le> of_nat (unat (img_height click_corner))"
    by (simp_all add: click_corner_def)
  have k: "unat (img_width click_corner) = 3 \<and> unat (img_height click_corner) = 7
      \<and> unat (naturalWidth click_corner) = 10 \<and> unat (naturalHeight click_corner) = 5"
    by (simp add: click_corner_def)
  have l: "mapClickToOriginal click_corner = (Num 10, Num 5)"
    by (simp add: click_corner_def mapClickToOriginal_def js_sub_def js_div_def double_eval)
  from a b c d k l mapClickToOriginal_in_bounds [OF a b c d e f g h]
  show ?thesis by blast
qed

subsection \<open>Stored annotations are well formed\<close>

text \<open>
  C9. In every configuration reachable from the initial one by the events the page
  accepts, no stored annotation has an empty text, and no stored annotation has a font
  size outside the integers from 12 to 72.
\<close>

theorem reachable_annotations_valid:
  assumes "reachable c"
  shows "\<forall>e\<in>set (textEdits (app c)).
    edit_text e \<noteq> [] \<and> 12 \<le> font_size e \<and> font_size e \<le> 72"
  using reachable_sizes_ok [OF assms] by (simp add: sizes_ok_def)

theorem reachable_annotations_valid_witness:
  "run trace_one_edit initial_config = Some \<lparr>app = state_one_edit, in_flight = None\<rparr>
   \<and> textEdits state_one_edit = [edit_Hi]
   \<and> edit_text edit_Hi \<noteq> [] \<and> 12 \<le> font_size edit_Hi \<and> font_size edit_Hi \<le> 72"
proof -
  have "textEdits state_one_edit = [edit_Hi]"
    by (simp add: state_one_edit_def)
  then show ?thesis
    using run_trace_one_edit reachable_annotations_valid [OF reachable_one_edit]
    by simp
qed

subsection \<open>The request for the edited image\<close>

text \<open>
  C10. The request built by \<open>downloadEditedImage\<close> does not depend on the extracted
  text: two states that differ only in \<open>extractedText\<close>, as after an edit of the text
  area by \<open>handleTextEdit\<close>, give the same outcome.
\<close>

theorem downloadEditedImage_ignores_extractedText:
  "downloadEditedImage (s\<lparr>extractedText := t\<rparr>) = downloadEditedImage s
   \<and> downloadEditedImage (handleTextEdit t s) = downloadEditedImage s"
  by (simp add: downloadEditedImage_def handleTextEdit_def split: option.splits)

theorem downloadEditedImage_ignores_extractedText_witness:
  "extractedText (handleTextEdit (str ''changed'') state_one_edit) = str ''changed''
   \<and> extractedText state_one_edit = str ''first''
   \<and> downloadEditedImage (handleTextEdit (str ''changed'') state_one_edit)
       = Inr \<lparr>file_id = str ''abc123'', edits = [edit_Hi]\<rparr>"
proof -
  have "downloadEditedImage state_one_edit = Inr \<lparr>file_id = str ''abc123'', edits = [edit_Hi]\<rparr>"
    by (simp add: downloadEditedImage_def state_one_edit_def ocr_1_def)
  moreover have "extractedText (handleTextEdit (str ''changed'') state_one_edit) = str ''changed''
      \<and> extractedText state_one_edit = str ''first''"
    by (simp add: handleTextEdit_def state_one_edit_def)
  ultimately show ?thesis
    using downloadEditedImage_ignores_extractedText [of "str ''changed''" state_one_edit]
    by simp
qed

text \<open>
  C6, as the specification states it, fails: the code refuses a state without a result
  and a state without annotations in one and the same way, where the specification
  demands two different errors.
\<close>

theorem downloadEditedImage_one_refusal_counterexample:
  "downloadEditedImage (initial_state\<lparr>textEdits := [edit_Hi]\<rparr>)
     = downloadEditedImage (initial_state\<lparr>ocrResult := Some ocr_1\<rparr>)
   \<and> downloadEditedImage (initial_state\<lparr>textEdits := [edit_Hi]\<rparr>) = Inl No_edits_to_save
   \<and> buildRequest_spec (initial_state\<lparr>textEdits := [edit_Hi]\<rparr>) = Inl NoArtifact
   \<and> buildRequest_spec (initial_state\<lparr>ocrResult := Some ocr_1\<rparr>) = Inl NoAnnotations
   \<and> buildRequest_spec (initial_state\<lparr>textEdits := [edit_Hi]\<rparr>)
     \<noteq> buildRequest_spec (initial_state\<lparr>ocrResult := Some ocr_1\<rparr>)"
  by (simp add: downloadEditedImage_def buildRequest_spec_def initial_state_def)

text \<open>
  C6, amended. \<open>downloadEditedImage\<close> refuses, with the single alert
  \<open>No edits to save\<close> that does not tell the cause, when there is no extraction result
  and when the annotation sequence is empty; otherwise it posts the request whose
  \<open>file_id\<close> is the \<open>id\<close> of the result and whose \<open>edits\<close> are the annotation
  sequence, in the stored order.
\<close>

theorem downloadEditedImage_outcome:
  "(ocrResult s = None \<longrightarrow> downloadEditedImage s = Inl No_edits_to_save)
   \<and> (textEdits s = [] \<longrightarrow> downloadEditedImage s = Inl No_edits_to_save)
   \<and> (ocrResult s = Some d \<and> textEdits s \<noteq> [] \<longrightarrow>
        downloadEditedImage s = Inr \<lparr>file_id = ocr_id d, edits = textEdits s\<rparr>)"
  by (simp add: downloadEditedImage_def split: option.splits)

theorem downloadEditedImage_outcome_witness:
  "ocrResult initial_state = None \<and> textEdits initial_state = []
   \<and> downloadEditedImage initial_state = Inl No_edits_to_save
   \<and> ocrResult (state_one_edit\<lparr>textEdits := [edit_Hi, edit_Hi\<lparr>edit_text := str ''Ho''\<rparr>]\<rparr>)
       = Some ocr_1
   \<and> downloadEditedImage (state_one_edit\<lparr>textEdits := [edit_Hi, edit_Hi\<lparr>edit_text := str ''Ho''\<rparr>]\<rparr>)
       = Inr \<lparr>file_id = str ''abc123'', edits = [edit_Hi, edit_Hi\<lparr>edit_text := str ''Ho''\<rparr>]\<rparr>"
proof -
  have a: "ocrResult initial_state = None \<and> textEdits initial_state = []"
    by (simp add: initial_state_def)
  have b: "ocrResult (state_one_edit\<lparr>textEdits := [edit_Hi, edit_Hi\<lparr>edit_text := str ''Ho''\<rparr>]\<rparr>)
      = Some ocr_1 \<and> ocr_id ocr_1 = str ''abc123''"
    by (simp add: state_one_edit_def ocr_1_def)
  show ?thesis
    using a b downloadEditedImage_outcome [of initial_state ocr_1]
      downloadEditedImage_outcome
        [of "state_one_edit\<lparr>textEdits := [edit_Hi, edit_Hi\<lparr>edit_text := str ''Ho''\<rparr>]\<rparr>" ocr_1]
    by simp
qed

subsection \<open>Loading a file and installing a result\<close>

text \<open>
  C1, as the specification states it, fails: an annotation placed under the result
  \<open>abc123\<close> is still in the sequence after the text of the same file was extracted
  again and the result \<open>def456\<close> installed, and it is then sent with the new identifier.
\<close>

theorem resolved_keeps_edits_counterexample:
  "run trace_one_edit initial_config = Some \<lparr>app = state_one_edit, in_flight = None\<rparr>
   \<and> ocrResult state_one_edit = Some ocr_1 \<and> textEdits state_one_edit = [edit_Hi]
   \<and> run trace_extract_again initial_config
       = Some \<lparr>app = state_one_edit\<lparr>ocrResult := Some ocr_2, extractedText := str ''second''\<rparr>,
               in_flight = None\<rparr>
   \<and> ocr_id ocr_1 \<noteq> ocr_id ocr_2
   \<and> textEdits (handleUploadAndOCR_resolved ocr_2 state_one_edit) = [edit_Hi]
   \<and> downloadEditedImage (state_one_edit\<lparr>ocrResult := Some ocr_2, extractedText := str ''second''\<rparr>)
       = Inr \<lparr>file_id = str ''def456'', edits = [edit_Hi]\<rparr>"
proof -
  have "run trace_extract_again initial_config
      = Some \<lparr>app = state_one_edit\<lparr>ocrResult := Some ocr_2, extractedText := str ''second''\<rparr>,
               in_flight = None\<rparr>"
    by (simp add: trace_extract_again_def run_append run_trace_one_edit)
      (simp add: state_one_edit_def handleUploadAndOCR_send_def handleUploadAndOCR_resolved_def
        ocr_2_def)
  moreover have "ocr_id ocr_1 \<noteq> ocr_id ocr_2"
    by (simp add: ocr_1_def ocr_2_def str_def)
  moreover have "downloadEditedImage
      (state_one_edit\<lparr>ocrResult := Some ocr_2, extractedText := str ''second''\<rparr>)
       = Inr \<lparr>file_id = str ''def456'', edits = [edit_Hi]\<rparr>"
    by (simp add: downloadEditedImage_def state_one_edit_def ocr_2_def)
  ultimately show ?thesis
    using run_trace_one_edit
    by (simp add: state_one_edit_def handleUploadAndOCR_resolved_def)
qed

text \<open>
  C1, amended. The annotation sequence is emptied when a new image file is loaded
  (\<open>handleFileSelect\<close> with a file, \<open>handleDrop\<close> with an image file), in the operation
  that also removes the extraction result; so in every reachable configuration without
  an extraction result the annotation sequence is empty. Installing an extraction
  result (\<open>handleUploadAndOCR\<close> resolving) sets \<open>ocrResult\<close> and leaves the annotation
  sequence as it is.
\<close>

theorem new_file_empties_edits:
  "ocrResult (handleFileSelect (Some fl) url s) = None
   \<and> textEdits (handleFileSelect (Some fl) url s) = []
   \<and> (startsWith (file_type fl) (str ''image/'') \<longrightarrow>
        ocrResult (handleDrop (Some fl) url s) = None
        \<and> textEdits (handleDrop (Some fl) url s) = [])
   \<and> (reachable c \<and> ocrResult (app c) = None \<longrightarrow> textEdits (app c) = [])
   \<and> ocrResult (handleUploadAndOCR_resolved d s) = Some d
   \<and> textEdits (handleUploadAndOCR_resolved d s) = textEdits s"
  using reachable_no_result [of c]
  by (simp add: handleFileSelect_def handleDrop_def handleUploadAndOCR_resolved_def)

theorem new_file_empties_edits_witness:
  "textEdits state_one_edit = [edit_Hi]
   \<and> textEdits (handleFileSelect (Some file_B) (str ''blob:2'') state_one_edit) = []
   \<and> ocrResult (handleFileSelect (Some file_B) (str ''blob:2'') state_one_edit) = None
   \<and> startsWith (file_type file_B) (str ''image/'')
   \<and> textEdits (handleDrop (Some file_B) (str ''blob:2'') state_one_edit) = []
   \<and> reachable initial_config \<and> ocrResult (app initial_config) = None
   \<and> textEdits (app initial_config) = []
   \<and> textEdits (handleUploadAndOCR_resolved ocr_2 state_one_edit) = [edit_Hi]"
proof -
  have a: "startsWith (file_type file_B) (str ''image/'')"
    by (simp add: startsWith_def file_B_def str_def)
  have "ocrResult (app initial_config) = None"
    by (simp add: initial_config_def initial_state_def)
  with reachable.init have b: "reachable initial_config \<and> ocrResult (app initial_config) = None"
    by (rule conjI)
  have c: "textEdits state_one_edit = [edit_Hi]"
    by (simp add: state_one_edit_def)
  show ?thesis
    using a b c
      new_file_empties_edits [of file_B "str ''blob:2''" state_one_edit initial_config ocr_2]
    by simp
qed

text \<open>
  C2, as the specification states it, fails: the text typed for the next annotation is
  still pending after another file was selected.
\<close>

theorem new_file_keeps_newText_counterexample:
  "map_option (newText \<circ> app) (run trace_typed_then_file initial_config) = Some (str ''Hi'')
   \<and> map_option (selectedFile \<circ> app) (run trace_typed_then_file initial_config)
       = Some (Some file_B)
   \<and> str ''Hi'' \<noteq> []"
  by (simp add: trace_typed_then_file_def eval_defs)

text \<open>
  C2, amended. Loading a new image file (\<open>handleFileSelect\<close> with a file,
  \<open>handleDrop\<close> with an image file) empties the annotation sequence and switches edit
  mode off, and leaves the pending text, the pending font size and the pending font
  colour unchanged.
\<close>

theorem new_file_reset:
  "textEdits (handleFileSelect (Some fl) url s) = []
   \<and> \<not> isEditMode (handleFileSelect (Some fl) url s)
   \<and> newText (handleFileSelect (Some fl) url s) = newText s
   \<and> fontSize (handleFileSelect (Some fl) url s) = fontSize s
   \<and> fontColor (handleFileSelect (Some fl) url s) = fontColor s
   \<and> (startsWith (file_type fl) (str ''image/'') \<longrightarrow>
        handleDrop (Some fl) url s = handleFileSelect (Some fl) url s)"
  by (simp add: handleFileSelect_def handleDrop_def)

theorem new_file_reset_witness:
  "startsWith (file_type file_B) (str ''image/'')
   \<and> textEdits (state_one_edit\<lparr>newText := str ''Hi'', fontSize := 30\<rparr>) = [edit_Hi]
   \<and> isEditMode (state_one_edit\<lparr>newText := str ''Hi'', fontSize := 30\<rparr>)
   \<and> handleDrop (Some file_B) (str ''blob:2'') (state_one_edit\<lparr>newText := str ''Hi'', fontSize := 30\<rparr>)
       = handleFileSelect (Some file_B) (str ''blob:2'')
           (state_one_edit\<lparr>newText := str ''Hi'', fontSize := 30\<rparr>)
   \<and> textEdits (handleFileSelect (Some file_B) (str ''blob:2'')
        (state_one_edit\<lparr>newText := str ''Hi'', fontSize := 30\<rparr>)) = []
   \<and> \<not> isEditMode (handleFileSelect (Some file_B) (str ''blob:2'')
        (state_one_edit\<lparr>newText := str ''Hi'', fontSize := 30\<rparr>))
   \<and> newText (handleFileSelect (Some file_B) (str ''blob:2'')
        (state_one_edit\<lparr>newText := str ''Hi'', fontSize := 30\<rparr>)) = str ''Hi''
   \<and> fontSize (handleFileSelect (Some file_B) (str ''blob:2'')
        (state_one_edit\<lparr>newText := str ''Hi'', fontSize := 30\<rparr>)) = 30"
proof -
  have a: "startsWith (file_type file_B) (str ''image/'')"
    by (simp add: startsWith_def file_B_def str_def)
  have b: "textEdits (state_one_edit\<lparr>newText := str ''Hi'', fontSize := 30\<rparr>) = [edit_Hi]
      \<and> isEditMode (state_one_edit\<lparr>newText := str ''Hi'', fontSize := 30\<rparr>)"
    by (simp add: state_one_edit_def)
  show ?thesis
    using a b
      new_file_reset [of file_B "str ''blob:2''"
        "state_one_edit\<lparr>newText := str ''Hi'', fontSize := 30\<rparr>"]
    by simp
qed

subsection \<open>A response that arrives after the file was changed\<close>

text \<open>
  C3, as the specification states it, fails: the request was sent for the first file,
  the second file is the selected one when the response arrives, and the response is
  installed all the same.
\<close>

theorem stale_response_installed_counterexample:
  "run trace_file_changed initial_config
     = Some \<lparr>app = state_file_changed, in_flight = Some file_A\<rparr>
   \<and> selectedFile state_file_changed = Some file_B \<and> file_A \<noteq> file_B
   \<and> run (trace_file_changed @ [Resolved ocr_1]) initial_config
     = Some \<lparr>app = state_file_changed\<lparr>ocrResult := Some ocr_1, extractedText := str ''first'',
                 isLoading := False\<rparr>,
             in_flight = None\<rparr>"
proof -
  have r: "run trace_file_changed initial_config
     = Some \<lparr>app = state_file_changed, in_flight = Some file_A\<rparr>"
    by (simp add: trace_file_changed_def state_file_changed_def eval_defs)
  have "file_A \<noteq> file_B"
    by (simp add: file_A_def file_B_def str_def)
  moreover have "selectedFile state_file_changed = Some file_B"
    by (simp add: state_file_changed_def)
  ultimately show ?thesis
    using r by (simp add: run_append handleUploadAndOCR_resolved_def ocr_1_def)
qed

text \<open>
  C3, amended. A response is installed whenever it arrives while its request is
  outstanding, whatever file is selected by then: \<open>ocrResult\<close> becomes the response,
  \<open>extractedText\<close> its text and \<open>isLoading\<close> false, and the selected file, the preview,
  the annotations and the pending fields stay as they are. No token is compared. At
  most one request is outstanding at a time: in a reachable configuration a request is
  outstanding exactly while \<open>isLoading\<close> is set, and then the button is disabled, so
  that a click to send another request is not accepted.
\<close>

theorem response_always_installed:
  "(in_flight c \<noteq> None \<longrightarrow>
      step (Resolved d) c =
        Some \<lparr>app = (app c)\<lparr>ocrResult := Some d, extractedText := extracted_text d,
                       isLoading := False\<rparr>,
              in_flight = None\<rparr>)
   \<and> (reachable c \<longrightarrow> (in_flight c \<noteq> None \<longleftrightarrow> isLoading (app c)))
   \<and> (reachable c \<and> in_flight c \<noteq> None \<longrightarrow> step UploadClick c = None)"
proof -
  have "in_flight c \<noteq> None \<longleftrightarrow> isLoading (app c)" if "reachable c"
    using that
  proof (induction rule: reachable.induct)
    case init
    show ?case by (simp add: initial_config_def initial_state_def)
  next
    case (next_event c e c')
    then show ?case
      by (cases e) (auto simp: handler_defs split: if_splits option.splits)
  qed
  then show ?thesis
    by (auto simp: handleUploadAndOCR_resolved_def)
qed

theorem response_always_installed_witness:
  "reachable \<lparr>app = state_file_changed, in_flight = Some file_A\<rparr>
   \<and> selectedFile state_file_changed = Some file_B
   \<and> isLoading state_file_changed
   \<and> step (Resolved ocr_1) \<lparr>app = state_file_changed, in_flight = Some file_A\<rparr>
     = Some \<lparr>app = state_file_changed\<lparr>ocrResult := Some ocr_1, extractedText := str ''first'',
                 isLoading := False\<rparr>,
             in_flight = None\<rparr>
   \<and> step UploadClick \<lparr>app = state_file_changed, in_flight = Some file_A\<rparr> = None"
proof -
  have "run trace_file_changed initial_config
     = Some \<lparr>app = state_file_changed, in_flight = Some file_A\<rparr>"
    by (simp add: trace_file_changed_def state_file_changed_def eval_defs)
  with reachable.init have r: "reachable \<lparr>app = state_file_changed, in_flight = Some file_A\<rparr>"
    by (rule run_reachable)
  have s: "selectedFile state_file_changed = Some file_B \<and> extracted_text ocr_1 = str ''first''"
    by (simp add: state_file_changed_def ocr_1_def)
  show ?thesis
    using r s
      response_always_installed [of "\<lparr>app = state_file_changed, in_flight = Some file_A\<rparr>" ocr_1]
    by simp
qed

end
